theory Spec2Isabelle
  imports Complex_Main "HOL-Library.Word" "HOL-Library.Sublist"
begin

section \<open>Weighted quantile summaries (summary.go)\<close>

text \<open>
  A shallow embedding of \<^verbatim>\<open>summary.go\<close>: the entry and summary types, the slice storage they
  share, the builders, \<^verbatim>\<open>Merge\<close>, \<^verbatim>\<open>compress\<close> and the queries.

  Numbers. A \<^verbatim>\<open>float64\<close> is a value of \<open>f64\<close>: a finite number, one of the two infinities,
  or NaN. The arithmetic is that of IEEE 754 binary64: the exact result of \<open>+\<close>, \<open>-\<close>, \<open>*\<close>,
  \<open>/\<close> and of the conversion from \<^verbatim>\<open>int64\<close> is rounded to the nearest binary64 number, ties
  to the even significand, and becomes an infinity when the rounded result reaches \<open>2 ^ 1024\<close>;
  a comparison with NaN is false, NaN is not equal to itself, \<open>x / 0\<close> is an infinity or NaN.
  The sign of a zero is not modelled: there is one zero, and \<open>x / 0\<close> takes the sign of \<open>x\<close>.
  An \<^verbatim>\<open>int64\<close> is a 64-bit word read through \<open>sint\<close>, so \<open>+\<close> and \<open>-\<close> wrap around. A Go
  \<^verbatim>\<open>int\<close> that counts or indexes elements of a slice is a \<open>nat\<close>.
\<close>

subsection \<open>float64\<close>

datatype f64 = Fin real | PInf | NInf | NaN

text \<open>
  Rounding. \<open>ulp64 x\<close> is the distance between neighbouring binary64 numbers at the magnitude
  of \<open>x\<close>: \<open>2 ^ (e - 52)\<close> for \<open>2 ^ e \<le> \<bar>x\<bar> < 2 ^ (e + 1)\<close>, and \<open>2 ^ - 1074\<close> below the
  smallest normal number \<open>2 ^ - 1022\<close>. \<open>rne q\<close> is the integer nearest to \<open>q\<close>, the even one
  of the two when \<open>q\<close> lies half-way. \<open>round64 x\<close> is the binary64 value of the real \<open>x\<close>: the
  nearest multiple of \<open>ulp64 x\<close>, or an infinity on overflow. The values of type \<open>f64\<close> that
  are binary64 numbers are the infinities, NaN and the \<open>Fin x\<close> with \<open>round64 x = Fin x\<close>;
  every operation below returns one of these.
\<close>

definition ulp64 :: "real \<Rightarrow> real" where
  "ulp64 x = 2 powi (max \<lfloor>log 2 \<bar>x\<bar>\<rfloor> (- 1022) - 52)"

definition rne :: "real \<Rightarrow> int" where
  "rne q =
     (let f = \<lfloor>q\<rfloor> in
      if q - of_int f < 1 / 2 then f
      else if 1 / 2 < q - of_int f then f + 1
      else if even f then f else f + 1)"

definition round64 :: "real \<Rightarrow> f64" where
  "round64 x =
     (if x = 0 then Fin 0
      else
        let y = of_int (rne (x / ulp64 x)) * ulp64 x
        in if 2 ^ 1024 \<le> \<bar>y\<bar> then (if 0 < x then PInf else NInf) else Fin y)"

fun fneg :: "f64 \<Rightarrow> f64" where
  "fneg (Fin x) = Fin (- x)"
| "fneg PInf = NInf"
| "fneg NInf = PInf"
| "fneg NaN = NaN"

fun fadd :: "f64 \<Rightarrow> f64 \<Rightarrow> f64" where
  "fadd (Fin x) (Fin y) = round64 (x + y)"
| "fadd NaN b = NaN"
| "fadd a NaN = NaN"
| "fadd PInf NInf = NaN"
| "fadd NInf PInf = NaN"
| "fadd PInf b = PInf"
| "fadd a PInf = PInf"
| "fadd NInf b = NInf"
| "fadd a NInf = NInf"

definition fsub :: "f64 \<Rightarrow> f64 \<Rightarrow> f64" where
  "fsub a b = fadd a (fneg b)"

fun fmul :: "f64 \<Rightarrow> f64 \<Rightarrow> f64" where
  "fmul (Fin x) (Fin y) = round64 (x * y)"
| "fmul NaN b = NaN"
| "fmul a NaN = NaN"
| "fmul (Fin x) PInf = (if x = 0 then NaN else if 0 < x then PInf else NInf)"
| "fmul (Fin x) NInf = (if x = 0 then NaN else if 0 < x then NInf else PInf)"
| "fmul PInf (Fin y) = (if y = 0 then NaN else if 0 < y then PInf else NInf)"
| "fmul NInf (Fin y) = (if y = 0 then NaN else if 0 < y then NInf else PInf)"
| "fmul PInf PInf = PInf"
| "fmul PInf NInf = NInf"
| "fmul NInf PInf = NInf"
| "fmul NInf NInf = PInf"

fun fdiv :: "f64 \<Rightarrow> f64 \<Rightarrow> f64" where
  "fdiv (Fin x) (Fin y) =
     (if y \<noteq> 0 then round64 (x / y)
      else if x = 0 then NaN else if 0 < x then PInf else NInf)"
| "fdiv NaN b = NaN"
| "fdiv a NaN = NaN"
| "fdiv (Fin x) PInf = Fin 0"
| "fdiv (Fin x) NInf = Fin 0"
| "fdiv PInf (Fin y) = (if 0 \<le> y then PInf else NInf)"
| "fdiv NInf (Fin y) = (if 0 \<le> y then NInf else PInf)"
| "fdiv PInf PInf = NaN"
| "fdiv PInf NInf = NaN"
| "fdiv NInf PInf = NaN"
| "fdiv NInf NInf = NaN"

text \<open>The comparisons \<^verbatim>\<open>==\<close>, \<^verbatim>\<open><\<close> and \<^verbatim>\<open><=\<close>; \<^verbatim>\<open>a > b\<close> is \<open>flt b a\<close> and
  \<^verbatim>\<open>a >= b\<close> is \<open>fle b a\<close>.\<close>

fun feq :: "f64 \<Rightarrow> f64 \<Rightarrow> bool" where
  "feq (Fin x) (Fin y) = (x = y)"
| "feq PInf PInf = True"
| "feq NInf NInf = True"
| "feq a b = False"

fun flt :: "f64 \<Rightarrow> f64 \<Rightarrow> bool" where
  "flt (Fin x) (Fin y) = (x < y)"
| "flt NaN b = False"
| "flt a NaN = False"
| "flt a NInf = False"
| "flt PInf b = False"
| "flt NInf b = True"
| "flt a PInf = True"

definition fle :: "f64 \<Rightarrow> f64 \<Rightarrow> bool" where
  "fle a b = (flt a b \<or> feq a b)"

definition isNaN :: "f64 \<Rightarrow> bool" where
  "isNaN a = (a = NaN)"

fun finite64 :: "f64 \<Rightarrow> bool" where
  "finite64 (Fin x) = True"
| "finite64 a = False"

fun rv :: "f64 \<Rightarrow> real" where
  "rv (Fin x) = x"
| "rv a = 0"

subsection \<open>int64 and the helpers that are not in summary.go\<close>

type_synonym int64 = "64 word"

definition float64 :: "int64 \<Rightarrow> f64" where
  "float64 k = round64 (real_of_int (sint k))"

text \<open>Modelled from the spec: \<^verbatim>\<open>maxInt64\<close>, \<^verbatim>\<open>maxFloat64\<close> and the type \<^verbatim>\<open>bufEntry\<close> are
  used by summary.go and declared elsewhere. The spec writes \<open>max(sizeHint, 2)\<close> and
  \<open>max(1/sizeHint, minEps)\<close>, and describes a buffer entry as a (value, weight) pair of
  float64. \<open>maxFloat64 a b\<close> is \<open>a\<close> when \<^verbatim>\<open>a > b\<close> and \<open>b\<close> otherwise.\<close>

definition maxInt64 :: "int64 \<Rightarrow> int64 \<Rightarrow> int64" where
  "maxInt64 a b = (if sint b < sint a then a else b)"

definition maxFloat64 :: "f64 \<Rightarrow> f64 \<Rightarrow> f64" where
  "maxFloat64 a b = (if flt b a then a else b)"

record bufEntry =
  buf_value :: f64
  buf_weight :: f64

subsection \<open>SumEntry\<close>

record SumEntry =
  "value" :: f64
  weight :: f64
  minRank :: f64
  maxRank :: f64

definition prevMaxRank :: "SumEntry \<Rightarrow> f64" where
  "prevMaxRank se = fsub (maxRank se) (weight se)"

definition nextMinRank :: "SumEntry \<Rightarrow> f64" where
  "nextMinRank se = fadd (minRank se) (weight se)"

text \<open>Go's \<^verbatim>\<open>==\<close> on the struct: every field compared with the float64 \<^verbatim>\<open>==\<close>.\<close>

definition SumEntry_eq :: "SumEntry \<Rightarrow> SumEntry \<Rightarrow> bool" where
  "SumEntry_eq a b =
     (feq (value a) (value b) \<and> feq (weight a) (weight b) \<and>
      feq (minRank a) (minRank b) \<and> feq (maxRank a) (maxRank b))"

definition zeroEntry :: SumEntry where
  "zeroEntry = \<lparr>value = Fin 0, weight = Fin 0, minRank = Fin 0, maxRank = Fin 0\<rparr>"

subsection \<open>Slices, the store of backing arrays, Summary\<close>

text \<open>
  A slice is a window on a backing array: the address of the array and a length (every slice
  of the program starts at index 0 of its array; the capacity is the length of the array).
  Two slices with the same address share their elements. The store maps addresses to arrays and
  knows the next unused address. Address 0 holds no array: it is the nil slice.
\<close>

record slice =
  base :: nat
  len :: nat

record store =
  arrays :: "nat \<Rightarrow> SumEntry list"
  fresh :: nat

record Summary =
  entries :: slice

datatype error = IndexOutOfRange | SliceBoundsOutOfRange | MakeLenOutOfRange

definition nil_slice :: slice where
  "nil_slice = \<lparr>base = 0, len = 0\<rparr>"

definition make :: "store \<Rightarrow> nat \<Rightarrow> store \<times> slice" where
  "make h n =
     (h\<lparr>arrays := (arrays h)(fresh h := replicate n zeroEntry), fresh := Suc (fresh h)\<rparr>,
      \<lparr>base = fresh h, len = n\<rparr>)"

definition elems :: "store \<Rightarrow> slice \<Rightarrow> SumEntry list" where
  "elems h s = take (len s) (arrays h (base s))"

text \<open>Writing the elements of a slice back leaves the rest of the array as it is.\<close>

definition set_elems :: "store \<Rightarrow> slice \<Rightarrow> SumEntry list \<Rightarrow> store" where
  "set_elems h s es =
     h\<lparr>arrays := (arrays h)(base s := es @ drop (len s) (arrays h (base s)))\<rparr>"

definition Entries :: "store \<Rightarrow> Summary \<Rightarrow> SumEntry list" where
  "Entries h sm = elems h (entries sm)"

text \<open>\<^verbatim>\<open>len(sum.entries)\<close> is \<open>length (Entries h sm)\<close>, the number of elements that the slice
  shows.\<close>

definition Size :: "store \<Rightarrow> Summary \<Rightarrow> int64" where
  "Size h sm = word_of_nat (length (Entries h sm))"

definition newSummary :: "store \<Rightarrow> store \<times> Summary" where
  "newSummary h = (let (h', s) = make h 0 in (h', \<lparr>entries = s\<rparr>))"

definition clone :: "store \<Rightarrow> Summary \<Rightarrow> store \<times> Summary" where
  "clone h sm =
     (let (h', s) = make h (length (Entries h sm))
      in (set_elems h' s (Entries h sm), \<lparr>entries = s\<rparr>))"

definition Clear :: "store \<Rightarrow> Summary \<Rightarrow> store \<times> Summary" where
  "Clear h sm = (let (h', s) = make h 0 in (h', sm\<lparr>entries := s\<rparr>))"

subsection \<open>Accessors\<close>

definition MinValue :: "store \<Rightarrow> Summary \<Rightarrow> f64" where
  "MinValue h sm =
     (let es = Entries h sm in if length es \<noteq> 0 then value (es ! 0) else Fin 0)"

definition MaxValue :: "store \<Rightarrow> Summary \<Rightarrow> f64" where
  "MaxValue h sm =
     (let es = Entries h sm in if length es \<noteq> 0 then value (es ! (length es - 1)) else Fin 0)"

definition TotalWeight :: "store \<Rightarrow> Summary \<Rightarrow> f64" where
  "TotalWeight h sm =
     (let es = Entries h sm in if length es \<noteq> 0 then maxRank (es ! (length es - 1)) else Fin 0)"

subsection \<open>ApproximationError\<close>

text \<open>The loop \<^verbatim>\<open>for i := 1; i < len(sum.entries); i++\<close> with its running \<^verbatim>\<open>maxGap\<close>.\<close>

function ApproximationError_loop :: "SumEntry list \<Rightarrow> nat \<Rightarrow> f64 \<Rightarrow> f64" where
  "ApproximationError_loop es i maxGap =
     (if i < length es then
        let it = es ! i;
            tmp = fsub (fsub (maxRank it) (minRank it)) (weight it);
            maxGap1 = (if flt maxGap tmp then tmp else maxGap);
            tmp2 = fsub (prevMaxRank it) (nextMinRank (es ! (i - 1)));
            maxGap2 = (if flt maxGap1 tmp2 then tmp2 else maxGap1)
        in ApproximationError_loop es (i + 1) maxGap2
      else maxGap)"
  by pat_completeness auto
termination
  by (relation "measure (\<lambda>(es, i, g). length es - i)") auto

declare ApproximationError_loop.simps [simp del]

definition ApproximationError :: "store \<Rightarrow> Summary \<Rightarrow> f64" where
  "ApproximationError h sm =
     (let es = Entries h sm in
      if length es = 0 then Fin 0
      else fdiv (ApproximationError_loop es 1 (Fin 0)) (TotalWeight h sm))"

subsection \<open>buildFromBufferEntries, buildFromSummaryEntries\<close>

text \<open>The \<^verbatim>\<open>range\<close> loop over the buffer, with \<^verbatim>\<open>cumWeight\<close>; it fills the new array from
  index 0.\<close>

fun buildFromBufferEntries_loop :: "f64 \<Rightarrow> bufEntry list \<Rightarrow> SumEntry list" where
  "buildFromBufferEntries_loop cumWeight [] = []"
| "buildFromBufferEntries_loop cumWeight (entry # bes) =
     (let curWeight = buf_weight entry
      in \<lparr>value = buf_value entry, weight = buf_weight entry,
          minRank = cumWeight, maxRank = fadd cumWeight curWeight\<rparr>
         # buildFromBufferEntries_loop (fadd cumWeight curWeight) bes)"

definition buildFromBufferEntries :: "store \<Rightarrow> Summary \<Rightarrow> bufEntry list \<Rightarrow> store \<times> Summary" where
  "buildFromBufferEntries h sm bes =
     (let (h1, s) = make h (length bes)
      in (set_elems h1 s (buildFromBufferEntries_loop (Fin 0) bes), sm\<lparr>entries := s\<rparr>))"

text \<open>The slice is stored as it is: the summary shares the backing array of \<open>ses\<close>.\<close>

definition buildFromSummaryEntries :: "Summary \<Rightarrow> slice \<Rightarrow> Summary" where
  "buildFromSummaryEntries sm ses = sm\<lparr>entries := ses\<rparr>"

subsection \<open>Merge\<close>



subsection \<open>compress\<close>

text \<open>
  The loops of \<^verbatim>\<open>compress\<close> work on \<open>es\<close>, the elements of \<^verbatim>\<open>sum.entries\<close>, and write to it
  in place. An index expression outside the slice is the panic \<open>IndexOutOfRange\<close>.
  The inner loop returns \<open>ni\<close> and \<open>addAccumulator\<close>.
\<close>

function compress_inner ::
  "SumEntry list \<Rightarrow> int64 \<Rightarrow> int64 \<Rightarrow> f64 \<Rightarrow> nat \<Rightarrow> int64 \<Rightarrow> nat \<Rightarrow> error + nat \<times> int64" where
  "compress_inner es sizeHint addStep epsDelta ri addAccumulator ni =
     (if ni \<noteq> length es \<and> sint addAccumulator < sint addStep then
        if ni < length es \<and> ri < length es then
          if fle (fsub (prevMaxRank (es ! ni)) (nextMinRank (es ! ri))) epsDelta
          then compress_inner es sizeHint addStep epsDelta ri (addAccumulator + sizeHint) (ni + 1)
          else Inr (ni, addAccumulator)
        else Inl IndexOutOfRange
      else Inr (ni, addAccumulator))"
  by pat_completeness auto
termination
  by (relation "measure (\<lambda>(es, sizeHint, addStep, epsDelta, ri, acc, ni). length es - ni)") auto

declare compress_inner.simps [simp del]

text \<open>One iteration of the outer loop, on the state \<open>(es, wi, li, ri, addAccumulator)\<close>.\<close>

definition compress_body ::
  "int64 \<Rightarrow> int64 \<Rightarrow> f64 \<Rightarrow> SumEntry list \<times> nat \<times> nat \<times> nat \<times> int64
     \<Rightarrow> error + SumEntry list \<times> nat \<times> nat \<times> nat \<times> int64" where
  "compress_body sizeHint addStep epsDelta st =
     (case st of (es, wi, li, ri, addAccumulator) \<Rightarrow>
        (case compress_inner es sizeHint addStep epsDelta ri addAccumulator (ri + 1) of
           Inl e \<Rightarrow> Inl e
         | Inr (ni, acc1) \<Rightarrow>
             if ri < length es \<and> ni - 1 < length es then
               let ri1 = (if SumEntry_eq (es ! ri) (es ! (ni - 1)) then ri + 1 else ni - 1)
               in if wi < length es \<and> ri1 < length es
                  then Inr (es[wi := es ! ri1], wi + 1, ri1, ri1, acc1 - addStep)
                  else Inl IndexOutOfRange
             else Inl IndexOutOfRange))"

function compress_outer ::
  "int64 \<Rightarrow> int64 \<Rightarrow> f64 \<Rightarrow> SumEntry list \<times> nat \<times> nat \<times> nat \<times> int64
     \<Rightarrow> error + SumEntry list \<times> nat \<times> nat \<times> nat \<times> int64" where
  "compress_outer sizeHint addStep epsDelta (es, wi, li, ri, addAccumulator) =
     (if ri + 1 \<noteq> length es then
        case compress_body sizeHint addStep epsDelta (es, wi, li, ri, addAccumulator) of
          Inl e \<Rightarrow> Inl e
        | Inr st \<Rightarrow> compress_outer sizeHint addStep epsDelta st
      else Inr (es, wi, li, ri, addAccumulator))"
  by pat_completeness auto
termination
proof (relation "measure (\<lambda>(sizeHint, addStep, epsDelta, es, wi, li, ri, acc). length es - wi)")
  show "wf (measure (\<lambda>(sizeHint, addStep, epsDelta, es, wi, li, ri, acc). length es - wi))"
    by simp
next
  fix sizeHint addStep :: int64 and epsDelta es and wi li ri :: nat and addAccumulator :: int64
    and st
  assume "compress_body sizeHint addStep epsDelta (es, wi, li, ri, addAccumulator) = Inr st"
  then show "((sizeHint, addStep, epsDelta, st), (sizeHint, addStep, epsDelta, es, wi, li, ri, addAccumulator))
      \<in> measure (\<lambda>(sizeHint, addStep, epsDelta, es, wi, li, ri, acc). length es - wi)"
    by (auto simp: compress_body_def Let_def split: sum.splits prod.splits if_splits)
qed

declare compress_outer.simps [simp del]

definition compress :: "store \<Rightarrow> Summary \<Rightarrow> int64 \<Rightarrow> f64 \<Rightarrow> error + store \<times> Summary" where
  "compress h sm sizeHint0 minEps =
     (let sizeHint = maxInt64 sizeHint0 2;
          es = Entries h sm
      in if sint (word_of_nat (length es) :: int64) \<le> sint sizeHint then Inr (h, sm)
         else
           let epsDelta = fmul (TotalWeight h sm)
                            (maxFloat64 (fdiv (Fin 1) (float64 sizeHint)) minEps);
               addStep = word_of_nat (length es)
           in case compress_outer sizeHint addStep epsDelta (es, 1, 1, 0, 0) of
                Inl e \<Rightarrow> Inl e
              | Inr (es1, wi, li, ri, acc) \<Rightarrow>
                  (case (if li + 1 \<noteq> length es1
                         then (if wi < length es1
                               then Inr (es1[wi := es1 ! (length es1 - 1)], wi + 1)
                               else Inl IndexOutOfRange)
                         else Inr (es1, wi)) of
                     Inl e \<Rightarrow> Inl e
                   | Inr (es2, wi2) \<Rightarrow>
                       if wi2 \<le> length (arrays h (base (entries sm)))
                       then Inr (set_elems h (entries sm) es2,
                                 sm\<lparr>entries := (entries sm)\<lparr>len := wi2\<rparr>\<rparr>)
                       else Inl SliceBoundsOutOfRange))"

subsection \<open>GenerateBoundaries\<close>

text \<open>\<^verbatim>\<open>make([]float64, n)\<close> followed by one \<^verbatim>\<open>append\<close> for each compressed entry.\<close>

definition GenerateBoundaries ::
  "store \<Rightarrow> Summary \<Rightarrow> int64 \<Rightarrow> error + f64 list \<times> store" where
  "GenerateBoundaries h sm numBoundaries =
     (if length (Entries h sm) = 0 then Inr ([], h)
      else
        let compressedSummary = buildFromSummaryEntries \<lparr>entries = nil_slice\<rparr> (entries sm);
            compressionEps = fadd (ApproximationError h sm)
                               (fdiv (Fin 1) (float64 numBoundaries))
        in case compress h compressedSummary numBoundaries compressionEps of
             Inl e \<Rightarrow> Inl e
           | Inr (h1, compressedSummary1) \<Rightarrow>
               let ces = Entries h1 compressedSummary1;
                   output = replicate (length ces) (Fin 0)
               in Inr (output @ map value ces, h1))"

subsection \<open>GenerateQuantiles\<close>

text \<open>
  \<^verbatim>\<open>int(rank)\<close>: the conversion of a float64 to \<^verbatim>\<open>int\<close> drops the fraction. The loop applies
  it to its counter only, which is finite and not negative.
\<close>

definition toInt :: "f64 \<Rightarrow> int" where
  "toInt a = (if 0 \<le> rv a then \<lfloor>rv a\<rfloor> else \<lceil>rv a\<rceil>)"

text \<open>
  \<^verbatim>\<open>make([]float64, n)\<close> panics when \<open>n\<close> is negative and when the \<open>8 * n\<close> bytes of the
  array exceed \<open>maxAlloc\<close>, the largest allocation of the Go runtime: \<open>2 ^ 48\<close> bytes on the
  64-bit platforms with 48 address bits. An allocation within this limit is taken to succeed:
  the memory of the machine is not modelled.
\<close>

definition maxAlloc :: nat where
  "maxAlloc = 2 ^ 48"

definition makeslicelen_ok :: "int \<Rightarrow> bool" where
  "makeslicelen_ok n = (0 \<le> n \<and> 8 * nat n \<le> maxAlloc)"

text \<open>The inner loop \<^verbatim>\<open>for nextIdx < len(sum.entries) && d2 >= ...\<close>.\<close>

function GenerateQuantiles_inner :: "SumEntry list \<Rightarrow> f64 \<Rightarrow> nat \<Rightarrow> nat" where
  "GenerateQuantiles_inner es d2 nextIdx =
     (if nextIdx < length es \<and>
         fle (fadd (minRank (es ! nextIdx)) (maxRank (es ! nextIdx))) d2
      then GenerateQuantiles_inner es d2 (nextIdx + 1)
      else nextIdx)"
  by pat_completeness auto
termination
  by (relation "measure (\<lambda>(es, d2, nextIdx). length es - nextIdx)") auto

declare GenerateQuantiles_inner.simps [simp del]

text \<open>
  The loop \<^verbatim>\<open>for rank := 0.0; rank <= float64(numQuantiles); rank++\<close>, with the float64
  counter \<open>rank\<close>; \<open>nq\<close> is \<^verbatim>\<open>numQuantiles\<close> after the clamp. \<^verbatim>\<open>rank++\<close> is a float64
  addition: from \<open>2 ^ 53\<close> on it rounds back to \<open>rank\<close>, and the loop does not end when it
  gets there. The result is \<open>None\<close> when the loop runs for ever.
\<close>

partial_function (option) GenerateQuantiles_loop ::
  "SumEntry list \<Rightarrow> int64 \<Rightarrow> f64 \<Rightarrow> nat \<Rightarrow> f64 list \<Rightarrow> (error + f64 list) option" where
  "GenerateQuantiles_loop es nq rank curIdx outp =
     (if fle rank (float64 nq) then
        let d2 = fmul (Fin 2)
                   (fdiv (fmul rank (maxRank (es ! (length es - 1)))) (float64 nq));
            nextIdx = GenerateQuantiles_inner es d2 (curIdx + 1);
            curIdx1 = nextIdx - 1
        in if curIdx1 < length es \<and> 0 \<le> toInt rank \<and> nat (toInt rank) < length outp then
             if nextIdx = length es \<or>
                flt d2 (fadd (nextMinRank (es ! curIdx1)) (prevMaxRank (es ! nextIdx)))
             then GenerateQuantiles_loop es nq (fadd rank (Fin 1)) curIdx1
                    (outp[nat (toInt rank) := value (es ! curIdx1)])
             else GenerateQuantiles_loop es nq (fadd rank (Fin 1)) curIdx1
                    (outp[nat (toInt rank) := value (es ! nextIdx)])
           else Some (Inl IndexOutOfRange)
      else Some (Inr outp))"

declare GenerateQuantiles_loop.simps [simp del]

definition GenerateQuantiles ::
  "store \<Rightarrow> Summary \<Rightarrow> int64 \<Rightarrow> (error + f64 list) option" where
  "GenerateQuantiles h sm numQuantiles =
     (let es = Entries h sm in
      if length es = 0 then Some (Inr [])
      else
        let nq = (if sint numQuantiles < 2 then 2 else numQuantiles)
        in if \<not> makeslicelen_ok (sint (nq + 1)) then Some (Inl MakeLenOutOfRange)
           else GenerateQuantiles_loop es nq (Fin 0) 0 (replicate (nat (sint (nq + 1))) (Fin 0)))"

subsection \<open>Observing a summary, concrete inputs\<close>

text \<open>The entries of the receiver in the store that a mutator returns.\<close>

definition entries_after :: "store \<times> Summary \<Rightarrow> SumEntry list" where
  "entries_after r = Entries (fst r) (snd r)"

definition values_in :: "Summary \<Rightarrow> store \<Rightarrow> f64 list" where
  "values_in sm h = map value (Entries h sm)"

text \<open>The store before any allocation, the summary \<^verbatim>\<open>&Summary{}\<close>, a sample with finite value
  and weight, and the summary that \<^verbatim>\<open>buildFromBufferEntries\<close> makes of a buffer in the empty
  store.\<close>

definition store0 :: store where
  "store0 = \<lparr>arrays = (\<lambda>a. []), fresh = 1\<rparr>"

definition emptySummary :: Summary where
  "emptySummary = \<lparr>entries = nil_slice\<rparr>"

definition sample :: "real \<Rightarrow> real \<Rightarrow> bufEntry" where
  "sample v w = \<lparr>buf_value = Fin v, buf_weight = Fin w\<rparr>"

definition built :: "bufEntry list \<Rightarrow> store \<times> Summary" where
  "built bes = buildFromBufferEntries store0 emptySummary bes"

subsection \<open>Whole numbers\<close>

text \<open>
  The numbers on which binary64 arithmetic is exact: \<open>whole x\<close> says that \<open>x\<close> is an
  integer. A sum or difference of whole numbers that lies between 0 and \<open>2 ^ 53\<close> is a
  binary64 number, so that no rounding takes place.
\<close>

definition whole :: "real \<Rightarrow> bool" where
  "whole x = (of_int \<lfloor>x\<rfloor> = x)"

subsection \<open>Exact summaries\<close>

text \<open>
  The predicates of the claims about summaries without approximation. \<open>wsum\<close> is the sum of the
  weights of a sequence of entries, \<open>bsum\<close> of a buffer. \<open>weights_ok\<close>: the weights of a
  buffer are whole numbers, not negative, with a sum below \<open>2 ^ 53\<close>. \<open>exact c es\<close>:
  every weight is a whole number and not negative, the first \<open>minRank\<close> is \<open>c\<close>, every
  \<open>maxRank\<close> is \<open>minRank + weight\<close> and is the \<open>minRank\<close> of the next entry.
\<close>

definition wsum :: "SumEntry list \<Rightarrow> real" where
  "wsum es = sum_list (map (\<lambda>e. rv (weight e)) es)"

definition bsum :: "bufEntry list \<Rightarrow> real" where
  "bsum bes = sum_list (map (\<lambda>b. rv (buf_weight b)) bes)"

definition weight_ok :: "f64 \<Rightarrow> bool" where
  "weight_ok w = (finite64 w \<and> whole (rv w) \<and> 0 \<le> rv w)"

definition weights_ok :: "bufEntry list \<Rightarrow> bool" where
  "weights_ok bes = (list_all (\<lambda>b. weight_ok (buf_weight b)) bes \<and> bsum bes < 2 ^ 53)"

fun exact :: "real \<Rightarrow> SumEntry list \<Rightarrow> bool" where
  "exact c [] = True"
| "exact c (e # es) =
     (weight_ok (weight e) \<and> minRank e = Fin c \<and> maxRank e = Fin (c + rv (weight e)) \<and>
      exact (c + rv (weight e)) es)"

subsection \<open>Valid summaries\<close>

text \<open>
  The ranks of an entry as real numbers, and the invariant of the summaries that the builders,
  \<open>Merge\<close> and \<open>compress\<close> make of samples with whole weights. \<open>entry_ok\<close>: the value is not
  NaN, weight and ranks are whole numbers, not negative and below \<open>2 ^ 53\<close>, and
  \<open>minRank + weight \<le> maxRank\<close>. \<open>before a b\<close>, for an entry \<open>a\<close> that stands before \<open>b\<close>:
  the values are in order, \<open>nextMinRank\<close> of \<open>a\<close> is at most \<open>minRank\<close> of \<open>b\<close>, and
  \<open>maxRank\<close> of \<open>a\<close> is at most \<open>prevMaxRank\<close> of \<open>b\<close>.
\<close>

definition rw :: "SumEntry \<Rightarrow> real" where
  "rw e = rv (weight e)"

definition rmin :: "SumEntry \<Rightarrow> real" where
  "rmin e = rv (minRank e)"

definition rmax :: "SumEntry \<Rightarrow> real" where
  "rmax e = rv (maxRank e)"

definition entry_ok :: "SumEntry \<Rightarrow> bool" where
  "entry_ok e =
     (\<not> isNaN (value e) \<and> finite64 (weight e) \<and> finite64 (minRank e) \<and> finite64 (maxRank e) \<and>
      whole (rw e) \<and> whole (rmin e) \<and> whole (rmax e) \<and>
      0 \<le> rw e \<and> 0 \<le> rmin e \<and> rmin e + rw e \<le> rmax e \<and> rmax e < 2 ^ 53)"

definition before :: "SumEntry \<Rightarrow> SumEntry \<Rightarrow> bool" where
  "before a b =
     (fle (value a) (value b) \<and> rmin a + rw a \<le> rmin b \<and> rmax a \<le> rmax b - rw b)"

definition valid :: "SumEntry list \<Rightarrow> bool" where
  "valid es =
     (list_all entry_ok es \<and> sorted_wrt before es \<and>
      (case es of [] \<Rightarrow> True | e # rest \<Rightarrow> minRank e = Fin 0))"

text \<open>\<open>plow l es\<close> is \<open>prevMaxRank\<close> of the first entry of \<open>es\<close>, and \<open>l\<close> when there is none.\<close>

fun plow :: "real \<Rightarrow> SumEntry list \<Rightarrow> real" where
  "plow l [] = l"
| "plow l (e # es) = rmax e - rw e"

text \<open>A buffer of samples sorted by value, with values that are not NaN and weights that are
  whole numbers, not negative, with a sum below \<open>2 ^ 53\<close>.\<close>

definition buffer_ok :: "bufEntry list \<Rightarrow> bool" where
  "buffer_ok bes =
     (weights_ok bes \<and> list_all (\<lambda>b. \<not> isNaN (buf_value b)) bes \<and>
      sorted_wrt (\<lambda>a b. fle (buf_value a) (buf_value b)) bes)"

section \<open>Properties\<close>

subsection \<open>Rounding\<close>

lemma rne_of_int [simp]: "rne (of_int z) = z"
  by (simp add: rne_def)

lemma round64_dyadic:
  assumes m: "\<bar>m\<bar> < 2 ^ 53" and j: "j \<le> 1074"
  shows "round64 (of_int m / 2 ^ j) = Fin (of_int m / 2 ^ j)"
proof (cases "m = 0")
  case True
  then show ?thesis by (simp add: round64_def)
next
  case False
  let ?x = "of_int m / 2 ^ j :: real"
  have x0: "?x \<noteq> 0"
    using False by simp
  have ax: "\<bar>?x\<bar> = of_int \<bar>m\<bar> / 2 ^ j"
    by (simp add: abs_divide)
  have "of_int \<bar>m\<bar> < (2 ^ 53 :: real)"
    using m by (metis of_int_less_numeral_power_cancel_iff)
  then have "\<bar>?x\<bar> < 2 ^ 53 / 2 ^ j"
    unfolding ax by (simp add: divide_strict_right_mono)
  also have "\<dots> = 2 powr (53 - real j)"
    by (simp add: powr_diff powr_realpow)
  finally have "log 2 \<bar>?x\<bar> < 53 - real j"
    using x0 by (subst log_less_iff) simp_all
  then have fl: "\<lfloor>log 2 \<bar>?x\<bar>\<rfloor> \<le> 52 - int j"
    by linarith
  define k where "k = max \<lfloor>log 2 \<bar>?x\<bar>\<rfloor> (- 1022) - 52"
  from fl j have k: "k \<le> - int j"
    unfolding k_def by linarith
  define d where "d = nat (- k) - j"
  from k have nk: "nat (- k) = d + j"
    unfolding d_def by linarith
  have u: "ulp64 ?x = 1 / 2 ^ (d + j)"
  proof -
    from k have "k \<le> 0" by linarith
    then have "(2::real) powi k = inverse (2 ^ nat (- k))"
      by (cases "k = 0") (simp_all add: power_int_def power_one_over field_simps)
    then show ?thesis
      unfolding ulp64_def k_def [symmetric] nk by (simp add: field_simps)
  qed
  have q: "?x / ulp64 ?x = of_int (m * 2 ^ d)"
    unfolding u by (simp add: power_add)
  have y: "of_int (rne (?x / ulp64 ?x)) * ulp64 ?x = ?x"
    unfolding q rne_of_int unfolding u by (simp add: power_add)
  have "\<bar>?x\<bar> \<le> of_int \<bar>m\<bar>"
    unfolding ax by (simp add: divide_le_eq mult_le_cancel_left1)
  also have "\<dots> < (2 ^ 53 :: real)"
    using m by (metis of_int_less_numeral_power_cancel_iff)
  also have "\<dots> \<le> 2 ^ 1024"
    by simp
  finally have "\<not> 2 ^ 1024 \<le> \<bar>?x\<bar>"
    by simp
  with x0 y show ?thesis
    unfolding round64_def Let_def by (simp only: if_False)
qed

lemma round64_int: "\<bar>m\<bar> < 2 ^ 53 \<Longrightarrow> round64 (of_int m) = Fin (of_int m)"
  using round64_dyadic [of m 0] by simp

lemma round64_numeral [simp]:
  "(numeral n :: int) < 2 ^ 53 \<Longrightarrow> round64 (numeral n) = Fin (numeral n)"
  using round64_int [of "numeral n"] by simp

lemma round64_neg_numeral [simp]:
  "(numeral n :: int) < 2 ^ 53 \<Longrightarrow> round64 (- numeral n) = Fin (- numeral n)"
  using round64_int [of "- numeral n"] by simp

lemma round64_0 [simp]: "round64 0 = Fin 0"
  by (simp add: round64_def)

lemma round64_1 [simp]: "round64 1 = Fin 1"
  using round64_int [of 1] by simp

lemma round64_neg_1 [simp]: "round64 (- 1) = Fin (- 1)"
  using round64_int [of "- 1"] by simp

lemma round64_numeral_half [simp]:
  "(numeral n :: int) < 2 ^ 53 \<Longrightarrow> round64 (numeral n / 2) = Fin (numeral n / 2)"
  using round64_dyadic [of "numeral n" 1] by simp

lemma round64_half [simp]: "round64 (1 / 2) = Fin (1 / 2)"
  using round64_dyadic [of 1 1] by simp

lemma whole_0 [simp]: "whole 0"
  by (simp add: whole_def)

lemma whole_1 [simp]: "whole 1"
  by (simp add: whole_def)

lemma whole_numeral [simp]: "whole (numeral n)"
  by (simp add: whole_def)

lemma whole_of_nat [simp]: "whole (real n)"
  by (simp add: whole_def)

lemma whole_of_int [simp]: "whole (of_int z)"
  by (simp add: whole_def)

lemma whole_add [simp]: "whole x \<Longrightarrow> whole y \<Longrightarrow> whole (x + y)"
  unfolding whole_def by (metis of_int_add of_int_floor_cancel floor_of_int)

lemma whole_diff [simp]: "whole x \<Longrightarrow> whole y \<Longrightarrow> whole (x - y)"
  unfolding whole_def by (metis of_int_diff of_int_floor_cancel floor_of_int)

lemma round64_whole:
  assumes "whole x" "0 \<le> x" "x < 2 ^ 53"
  shows "round64 x = Fin x"
proof -
  from assms(1) have x: "x = of_int \<lfloor>x\<rfloor>"
    unfolding whole_def by (rule sym)
  from assms(2,3) have "0 \<le> \<lfloor>x\<rfloor>" "\<lfloor>x\<rfloor> < 2 ^ 53"
    by (simp_all add: floor_less_iff)
  then have "\<bar>\<lfloor>x\<rfloor>\<bar> < 2 ^ 53"
    by simp
  from round64_int [OF this] x show ?thesis
    by simp
qed

lemma fadd_exact:
  "whole x \<Longrightarrow> whole y \<Longrightarrow> 0 \<le> x + y \<Longrightarrow> x + y < 2 ^ 53 \<Longrightarrow> fadd (Fin x) (Fin y) = Fin (x + y)"
  by (simp add: round64_whole)

lemma fsub_exact:
  "whole x \<Longrightarrow> whole y \<Longrightarrow> y \<le> x \<Longrightarrow> x - y < 2 ^ 53 \<Longrightarrow> fsub (Fin x) (Fin y) = Fin (x - y)"
  by (simp add: fsub_def round64_whole)

lemma float64_exact:
  "\<bar>sint k\<bar> < 2 ^ 53 \<Longrightarrow> float64 k = Fin (real_of_int (sint k))"
  unfolding float64_def by (rule round64_int)

subsection \<open>Evaluation of the builders on concrete buffers\<close>

lemmas eval_defs =
  built_def buildFromBufferEntries_def make_def set_elems_def Entries_def elems_def
  entries_after_def sample_def store0_def emptySummary_def nil_slice_def
  buildFromSummaryEntries_def Let_def

lemmas compress_eval_defs =
  compress_def maxInt64_def TotalWeight_def prevMaxRank_def nextMinRank_def fsub_def
  float64_def maxFloat64_def compress_outer.simps compress_body_def compress_inner.simps
  fle_def SumEntry_eq_def

subsection \<open>Exact summaries\<close>

lemma finite64_iff: "finite64 a \<longleftrightarrow> a = Fin (rv a)"
  by (cases a) simp_all

lemma fle_Fin [simp]: "fle (Fin x) (Fin y) \<longleftrightarrow> x \<le> y"
  by (auto simp: fle_def)

lemma weight_ok_Fin: "weight_ok w \<Longrightarrow> w = Fin (rv w)"
  by (simp add: weight_ok_def finite64_iff [symmetric])

lemma weight_ok_zero [simp]: "weight_ok (Fin 0)"
  by (simp add: weight_ok_def)

lemma bsum_simps [simp]: "bsum [] = 0" "bsum (b # bes) = rv (buf_weight b) + bsum bes"
  by (simp_all add: bsum_def)

lemma wsum_simps [simp]: "wsum [] = 0" "wsum (e # es) = rv (weight e) + wsum es"
  by (simp_all add: wsum_def)

lemma wsum_append [simp]: "wsum (xs @ ys) = wsum xs + wsum ys"
  by (simp add: wsum_def)

lemma bsum_nonneg: "list_all (\<lambda>b. weight_ok (buf_weight b)) bes \<Longrightarrow> 0 \<le> bsum bes"
  by (induction bes) (simp_all add: weight_ok_def)

lemma wsum_nonneg: "list_all (\<lambda>e. weight_ok (weight e)) es \<Longrightarrow> 0 \<le> wsum es"
  by (induction es) (simp_all add: weight_ok_def)

lemma wsum_whole: "list_all (\<lambda>e. weight_ok (weight e)) es \<Longrightarrow> whole (wsum es)"
  by (induction es) (simp_all add: weight_ok_def)

lemma build_loop_length [simp]: "length (buildFromBufferEntries_loop c bes) = length bes"
  by (induction bes arbitrary: c) (simp_all add: Let_def)

lemma build_loop_exact:
  assumes "list_all (\<lambda>b. weight_ok (buf_weight b)) bes" "whole c" "0 \<le> c" "c + bsum bes < 2 ^ 53"
  shows "exact c (buildFromBufferEntries_loop (Fin c) bes)"
  using assms
proof (induction bes arbitrary: c)
  case Nil
  then show ?case by simp
next
  case (Cons b bes)
  from Cons.prems(1) have ok: "weight_ok (buf_weight b)"
    and rest: "list_all (\<lambda>b. weight_ok (buf_weight b)) bes"
    by simp_all
  define w where "w = rv (buf_weight b)"
  from ok have w: "buf_weight b = Fin w" "whole w" "0 \<le> w"
    by (simp_all add: w_def weight_ok_def finite64_iff [symmetric])
  from bsum_nonneg [OF rest] Cons.prems(4) w have lt: "c + w < 2 ^ 53" "c + w + bsum bes < 2 ^ 53"
    by simp_all
  have a: "fadd (Fin c) (Fin w) = Fin (c + w)"
    using Cons.prems(2,3) w lt by (intro fadd_exact) simp_all
  have "exact (c + w) (buildFromBufferEntries_loop (Fin (c + w)) bes)"
    using rest Cons.prems(2,3) w lt by (intro Cons.IH) simp_all
  then show ?case
    using ok by (simp add: Let_def w(1) a del: fadd.simps)
qed


lemma entries_after_build:
  "entries_after (buildFromBufferEntries h sm bes) = buildFromBufferEntries_loop (Fin 0) bes"
  by (simp add: eval_defs)

lemma exact_weights: "exact c es \<Longrightarrow> list_all (\<lambda>e. weight_ok (weight e)) es"
  by (induction es arbitrary: c) auto

lemma exact_nth:
  "exact c es \<Longrightarrow> i < length es \<Longrightarrow>
   weight_ok (weight (es ! i)) \<and> minRank (es ! i) = Fin (c + wsum (take i es)) \<and>
   maxRank (es ! i) = Fin (c + wsum (take i es) + rv (weight (es ! i)))"
proof (induction es arbitrary: c i)
  case Nil
  then show ?case by simp
next
  case (Cons e es)
  show ?case
  proof (cases i)
    case 0
    with Cons.prems show ?thesis by simp
  next
    case (Suc j)
    with Cons.prems have "exact (c + rv (weight e)) es" "j < length es"
      by simp_all
    from Cons.IH [OF this] show ?thesis
      by (simp add: Suc add.assoc)
  qed
qed

text \<open>The partial sums of the weights of an exact summary are whole numbers between 0 and the
  total.\<close>

lemma exact_partial_sums:
  assumes "exact c es" "i < length es"
  shows "whole (wsum (take i es))" "0 \<le> wsum (take i es)" "whole (rv (weight (es ! i)))"
    "0 \<le> rv (weight (es ! i))" "wsum (take i es) + rv (weight (es ! i)) \<le> wsum es"
    "wsum (take (Suc i) es) = wsum (take i es) + rv (weight (es ! i))"
proof -
  note all = exact_weights [OF assms(1)]
  have t: "list_all (\<lambda>e. weight_ok (weight e)) (take i es)"
    and d: "list_all (\<lambda>e. weight_ok (weight e)) (drop (Suc i) es)"
    using all by (auto simp: list_all_iff dest: in_set_takeD in_set_dropD)
  show "whole (wsum (take i es))" "0 \<le> wsum (take i es)"
    by (rule wsum_whole [OF t], rule wsum_nonneg [OF t])
  from all assms(2) have "weight_ok (weight (es ! i))"
    by (simp add: list_all_length)
  then show "whole (rv (weight (es ! i)))" "0 \<le> rv (weight (es ! i))"
    by (simp_all add: weight_ok_def)
  have es: "es = take i es @ es ! i # drop (Suc i) es"
    using assms(2) by (simp add: id_take_nth_drop [symmetric])
  have "wsum es = wsum (take i es) + rv (weight (es ! i)) + wsum (drop (Suc i) es)"
    by (subst es) simp
  with wsum_nonneg [OF d] show "wsum (take i es) + rv (weight (es ! i)) \<le> wsum es"
    by simp
  show "wsum (take (Suc i) es) = wsum (take i es) + rv (weight (es ! i))"
    by (simp add: take_Suc_conv_app_nth [OF assms(2)])
qed

lemma exact_loop_zero:
  assumes ex: "exact c es" and c: "whole c" "0 \<le> c" "c + wsum es < 2 ^ 53"
  shows "1 \<le> i \<Longrightarrow> ApproximationError_loop es i (Fin 0) = Fin 0"
proof (induction "length es - i" arbitrary: i)
  case 0
  then show ?case by (simp add: ApproximationError_loop.simps)
next
  case (Suc k)
  then have lt: "i < length es" and i1: "i - 1 < length es" and si: "Suc (i - 1) = i"
    by simp_all
  define s where "s = c + wsum (take i es)"
  define w where "w = rv (weight (es ! i))"
  define s' where "s' = c + wsum (take (i - 1) es)"
  define w' where "w' = rv (weight (es ! (i - 1)))"
  note a = exact_nth [OF ex lt] and b = exact_nth [OF ex i1]
  note pa = exact_partial_sums [OF ex lt] and pb = exact_partial_sums [OF ex i1]
  have ss: "s = s' + w'"
    using pb(6) unfolding si by (simp add: s_def s'_def w'_def)
  have facts: "whole s" "0 \<le> s" "whole w" "0 \<le> w" "s + w < 2 ^ 53"
    "whole s'" "0 \<le> s'" "whole w'" "0 \<le> w'"
    using pa pb c by (simp_all add: s_def w_def s'_def w'_def)
  have f: "weight (es ! i) = Fin w" "minRank (es ! i) = Fin s" "maxRank (es ! i) = Fin (s + w)"
    "weight (es ! (i - 1)) = Fin w'" "minRank (es ! (i - 1)) = Fin s'"
    using a b weight_ok_Fin [of "weight (es ! i)"] weight_ok_Fin [of "weight (es ! (i - 1))"]
    by (simp_all add: s_def w_def s'_def w'_def)
  have e1: "fsub (Fin (s + w)) (Fin s) = Fin w"
    using fsub_exact [of "s + w" s] facts by simp
  have e2: "fsub (Fin w) (Fin w) = Fin 0"
    using fsub_exact [of w w] facts by simp
  have e3: "fsub (Fin (s + w)) (Fin w) = Fin s"
    using fsub_exact [of "s + w" w] facts by simp
  have e4: "fadd (Fin s') (Fin w') = Fin s"
    using fadd_exact [of s' w'] facts ss by simp
  have e5: "fsub (Fin s) (Fin s) = Fin 0"
    using fsub_exact [of s s] facts by simp
  have t1: "fsub (fsub (maxRank (es ! i)) (minRank (es ! i))) (weight (es ! i)) = Fin 0"
    by (simp only: f e1 e2)
  have t2: "fsub (prevMaxRank (es ! i)) (nextMinRank (es ! (i - 1))) = Fin 0"
    unfolding prevMaxRank_def nextMinRank_def by (simp only: f e3 e4 e5)
  have "ApproximationError_loop es i (Fin 0) = ApproximationError_loop es (i + 1) (Fin 0)"
    using t1 t2 by (subst ApproximationError_loop.simps) (simp add: lt Let_def)
  also have "\<dots> = Fin 0"
    using Suc by (intro Suc.hyps(1)) simp_all
  finally show ?case .
qed

lemma exact_last:
  "exact c es \<Longrightarrow> es \<noteq> [] \<Longrightarrow> maxRank (es ! (length es - 1)) = Fin (c + wsum es)"
proof -
  assume ex: "exact c es" and ne: "es \<noteq> []"
  then have l: "length es - 1 < length es"
    by simp
  have "Suc (length es - 1) = length es"
    using ne by simp
  with exact_partial_sums(6) [OF ex l] have "wsum es = wsum (take (length es - 1) es) + rv (weight (es ! (length es - 1)))"
    by simp
  with exact_nth [OF ex l] show ?thesis
    by simp
qed

lemma wsum_build: "wsum (buildFromBufferEntries_loop c bes) = bsum bes"
  by (induction bes arbitrary: c) (simp_all add: Let_def)

lemma Entries_build:
  "Entries (fst (buildFromBufferEntries h sm bes)) (snd (buildFromBufferEntries h sm bes))
     = buildFromBufferEntries_loop (Fin 0) bes"
  using entries_after_build [of h sm bes] by (simp add: entries_after_def)


subsection \<open>buildFromBufferEntries and ApproximationError\<close>




lemma fdiv_zero_not_finite: "\<not> finite64 (fdiv x (Fin 0))"
  by (cases x) simp_all

lemma exact_zero_weights:
  "\<forall>b\<in>set bes. buf_weight b = Fin 0 \<Longrightarrow> bsum bes = 0 \<and> list_all (\<lambda>b. weight_ok (buf_weight b)) bes"
  by (induction bes) simp_all

text \<open>
  C10. On a summary with entries \<open>ApproximationError\<close> is the quotient of the maximal gap by
  \<open>TotalWeight\<close>, whatever the divisor is, and when the divisor is 0 the quotient is not a
  finite number. The divisor is 0 on the summary built from any non-empty buffer whose weights
  are all 0; the result is then NaN.
\<close>

theorem ApproximationError_divides_by_TotalWeight:
  "(Entries h sm \<noteq> [] \<longrightarrow>
      ApproximationError h sm
        = fdiv (ApproximationError_loop (Entries h sm) 1 (Fin 0)) (TotalWeight h sm) \<and>
      (TotalWeight h sm = Fin 0 \<longrightarrow> \<not> finite64 (ApproximationError h sm))) \<and>
   (bes \<noteq> [] \<and> (\<forall>b\<in>set bes. buf_weight b = Fin 0) \<longrightarrow>
      Entries (fst (buildFromBufferEntries h sm bes)) (snd (buildFromBufferEntries h sm bes)) \<noteq> [] \<and>
      TotalWeight (fst (buildFromBufferEntries h sm bes)) (snd (buildFromBufferEntries h sm bes)) = Fin 0 \<and>
      ApproximationError (fst (buildFromBufferEntries h sm bes)) (snd (buildFromBufferEntries h sm bes)) = NaN)"
proof (intro conjI impI)
  assume ne: "Entries h sm \<noteq> []"
  then show d: "ApproximationError h sm
        = fdiv (ApproximationError_loop (Entries h sm) 1 (Fin 0)) (TotalWeight h sm)"
    by (simp add: ApproximationError_def)
  assume "TotalWeight h sm = Fin 0"
  then show "\<not> finite64 (ApproximationError h sm)"
    unfolding d by (simp only: fdiv_zero_not_finite not_False_eq_True)
next
  assume a: "bes \<noteq> [] \<and> (\<forall>b\<in>set bes. buf_weight b = Fin 0)"
  let ?es = "buildFromBufferEntries_loop (Fin 0) bes"
  from a exact_zero_weights [of bes]
  have all: "list_all (\<lambda>b. weight_ok (buf_weight b)) bes" and b0: "bsum bes = 0"
    by simp_all
  have lt: "0 + bsum bes < 2 ^ 53"
    by (simp add: b0)
  have ex: "exact 0 ?es"
    by (rule build_loop_exact [OF all _ _ lt]) simp_all
  from a have ne: "?es \<noteq> []"
    by (cases bes) (simp_all add: Let_def)
  have z: "wsum ?es = 0"
    by (simp add: wsum_build b0)
  show "Entries (fst (buildFromBufferEntries h sm bes)) (snd (buildFromBufferEntries h sm bes)) \<noteq> []"
    using ne by (simp add: Entries_build)
  show tw: "TotalWeight (fst (buildFromBufferEntries h sm bes)) (snd (buildFromBufferEntries h sm bes)) = Fin 0"
    using ne exact_last [OF ex ne] z by (simp add: TotalWeight_def Entries_build)
  have "ApproximationError_loop ?es 1 (Fin 0) = Fin 0"
    by (rule exact_loop_zero [OF ex]) (simp_all add: z)
  with ne tw show "ApproximationError (fst (buildFromBufferEntries h sm bes)) (snd (buildFromBufferEntries h sm bes)) = NaN"
    by (simp add: ApproximationError_def Entries_build)
qed

theorem ApproximationError_divides_by_TotalWeight_witness:
  "Entries (fst (built [sample 1 0, sample 2 0])) (snd (built [sample 1 0, sample 2 0])) \<noteq> [] \<and>
   [sample 1 0, sample 2 0] \<noteq> [] \<and>
   buf_weight (sample 1 0) = Fin 0 \<and> buf_weight (sample 2 0) = Fin 0 \<and>
   TotalWeight (fst (built [sample 1 0, sample 2 0])) (snd (built [sample 1 0, sample 2 0])) = Fin 0 \<and>
   \<not> finite64 (ApproximationError (fst (built [sample 1 0, sample 2 0])) (snd (built [sample 1 0, sample 2 0]))) \<and>
   ApproximationError (fst (built [sample 1 0, sample 2 0])) (snd (built [sample 1 0, sample 2 0])) = NaN"
proof -
  have a: "[sample 1 0, sample 2 0] \<noteq> [] \<and> (\<forall>b\<in>set [sample 1 0, sample 2 0]. buf_weight b = Fin 0)"
    by (simp add: sample_def)
  have b: "Entries (fst (built [sample 1 0, sample 2 0])) (snd (built [sample 1 0, sample 2 0])) \<noteq> []"
    by (simp add: eval_defs)
  from a b
    ApproximationError_divides_by_TotalWeight [of "fst (built [sample 1 0, sample 2 0])"
      "snd (built [sample 1 0, sample 2 0])" "[sample 1 0, sample 2 0]"]
    ApproximationError_divides_by_TotalWeight [of store0 emptySummary "[sample 1 0, sample 2 0]"]
  show ?thesis
    by (simp add: built_def)
qed

subsection \<open>Merge of exact summaries\<close>










lemma bsum_append [simp]: "bsum (xs @ ys) = bsum xs + bsum ys"
  by (simp add: bsum_def)




subsection \<open>compress\<close>

lemma compress_inner_result:
  "ni \<le> length es \<Longrightarrow> ri < length es \<Longrightarrow>
   \<exists>n a. compress_inner es sh st eD ri acc ni = Inr (n, a) \<and> ni \<le> n \<and> n \<le> length es"
proof (induction es sh st eD ri acc ni rule: compress_inner.induct)
  case (1 es sh st eD ri acc ni)
  show ?case
  proof (cases "ni \<noteq> length es \<and> sint acc < sint st \<and>
                fle (fsub (prevMaxRank (es ! ni)) (nextMinRank (es ! ri))) eD")
    case True
    with "1.prems" have lt: "ni < length es \<and> ri < length es"
      by simp
    from True lt have "ni + 1 \<le> length es"
      by simp
    from "1.IH" [OF _ lt _ this "1.prems"(2)] True
    obtain n a where "compress_inner es sh st eD ri (acc + sh) (ni + 1) = Inr (n, a)"
      "ni + 1 \<le> n" "n \<le> length es"
      by auto
    with True lt show ?thesis
      by (subst compress_inner.simps) simp
  next
    case False
    with "1.prems" show ?thesis
      by (subst compress_inner.simps) auto
  qed
qed

lemma compress_body_progress:
  assumes selfeq: "\<forall>e\<in>set es. SumEntry_eq e e"
    and wi: "wi \<le> ri + 1" and ri: "ri + 1 < length es"
  shows "\<exists>ri' acc'. compress_body sh st eD (es, wi, li, ri, acc)
            = Inr (es[wi := es ! ri'], wi + 1, ri', ri', acc') \<and> ri < ri' \<and> ri' < length es"
proof -
  from ri have r: "ri < length es" and r1: "ri + 1 \<le> length es"
    by simp_all
  from compress_inner_result [OF r1 r, of sh st eD acc]
  obtain ni a where inner: "compress_inner es sh st eD ri acc (ri + 1) = Inr (ni, a)"
    and ni: "ri + 1 \<le> ni" "ni \<le> length es"
    by blast
  let ?ri' = "if SumEntry_eq (es ! ri) (es ! (ni - 1)) then ri + 1 else ni - 1"
  have self: "SumEntry_eq (es ! ri) (es ! ri)"
    using selfeq r by simp
  have gt: "ri < ?ri'"
  proof (cases "SumEntry_eq (es ! ri) (es ! (ni - 1))")
    case True
    then show ?thesis by simp
  next
    case False
    with self have "ni - 1 \<noteq> ri"
      by auto
    with ni False show ?thesis by simp
  qed
  have lt: "?ri' < length es"
  proof (cases "SumEntry_eq (es ! ri) (es ! (ni - 1))")
    case True
    with ri show ?thesis by simp
  next
    case False
    from ni have "ni - 1 < length es"
      by arith
    with False show ?thesis by simp
  qed
  have "compress_body sh st eD (es, wi, li, ri, acc)
          = Inr (es[wi := es ! ?ri'], wi + 1, ?ri', ?ri', a - st)"
  proof -
    from ni have "ni - 1 < length es"
      by arith
    with r wi ri lt show ?thesis
      unfolding compress_body_def prod.case inner sum.case Let_def by simp
  qed
  with gt lt show ?thesis
    by blast
qed

lemma compress_outer_returns:
  "\<forall>e\<in>set es. SumEntry_eq e e \<Longrightarrow> wi \<le> ri + 1 \<Longrightarrow> ri < length es \<Longrightarrow>
   li = ri \<or> ri + 1 \<noteq> length es \<Longrightarrow>
   \<exists>es' wi' ri' acc'. compress_outer sh st eD (es, wi, li, ri, acc) = Inr (es', wi', ri', ri', acc') \<and>
      length es' = length es \<and> wi' \<le> length es' \<and> ri' + 1 = length es'"
proof (induction sh st eD "(es, wi, li, ri, acc)" arbitrary: es wi li ri acc
    rule: compress_outer.induct)
  case (1 sh st eD es wi li ri acc)
  show ?case
  proof (cases "ri + 1 \<noteq> length es")
    case False
    with "1.prems" show ?thesis
      by (subst compress_outer.simps) auto
  next
    case True
    with "1.prems" have ri1: "ri + 1 < length es"
      by simp
    from compress_body_progress [OF "1.prems"(1,2) ri1, of sh st eD li acc]
    obtain ri' acc' where body: "compress_body sh st eD (es, wi, li, ri, acc)
            = Inr (es[wi := es ! ri'], wi + 1, ri', ri', acc')" and gt: "ri < ri'" "ri' < length es"
      by blast
    have s: "\<forall>e\<in>set (es[wi := es ! ri']). SumEntry_eq e e"
    proof
      fix e assume "e \<in> set (es[wi := es ! ri'])"
      then have "e \<in> insert (es ! ri') (set es)"
        using set_update_subset_insert by fastforce
      with gt "1.prems"(1) show "SumEntry_eq e e"
        by auto
    qed
    from gt "1.prems"(2) have "wi + 1 \<le> ri' + 1" "ri' < length (es[wi := es ! ri'])"
      "ri' = ri' \<or> ri' + 1 \<noteq> length (es[wi := es ! ri'])"
      by simp_all
    from "1.hyps" [OF True body s this]
    obtain es' wi' r' a' where
      "compress_outer sh st eD (es[wi := es ! ri'], wi + 1, ri', ri', acc') = Inr (es', wi', r', r', a')"
      "length es' = length es" "wi' \<le> length es'" "r' + 1 = length es'"
      by auto
    with True body show ?thesis
      by (subst compress_outer.simps) simp
  qed
qed

lemma compress_outer_size:
  "compress_outer sh st eD (es, wi, li, ri, acc) = Inr (es', wi', li', ri', acc') \<Longrightarrow>
   wi \<le> length es \<Longrightarrow> length es' = length es \<and> wi' \<le> length es'"
proof (induction sh st eD "(es, wi, li, ri, acc)" arbitrary: es wi li ri acc
    rule: compress_outer.induct)
  case (1 sh st eD es wi li ri acc)
  show ?case
  proof (cases "ri + 1 \<noteq> length es")
    case False
    with "1.prems" show ?thesis
      by (subst (asm) compress_outer.simps) auto
  next
    case True
    with "1.prems"(1) obtain s1 where body: "compress_body sh st eD (es, wi, li, ri, acc) = Inr s1"
      and out: "compress_outer sh st eD s1 = Inr (es', wi', li', ri', acc')"
      by (subst (asm) compress_outer.simps) (auto split: sum.splits)
    obtain es1 wi1 li1 ri1 acc1 where s1: "s1 = (es1, wi1, li1, ri1, acc1)"
      by (cases s1)
    from body have b: "length es1 = length es \<and> wi1 = wi + 1 \<and> wi < length es"
      unfolding s1 compress_body_def
      by (auto simp: Let_def split: sum.splits prod.splits if_splits)
    from b "1.prems"(2) have "wi1 \<le> length es1"
      by simp
    from "1.hyps" [OF True body [unfolded s1] out [unfolded s1] this] b show ?thesis
      by simp
  qed
qed


lemma sint_maxInt64_2: "2 \<le> sint (maxInt64 k 2)"
  by (simp add: maxInt64_def)

lemma compress_proceeds_length:
  assumes "\<not> sint (word_of_nat n :: int64) \<le> sint (maxInt64 k 2)"
  shows "3 \<le> n"
proof (rule ccontr)
  assume "\<not> 3 \<le> n"
  then have "n = 0 \<or> n = 1 \<or> n = 2"
    by arith
  then have "sint (word_of_nat n :: int64) \<le> 2"
    by auto
  with sint_maxInt64_2 [of k] assms show False
    by simp
qed

lemma length_Entries_le: "length (Entries h sm) \<le> length (arrays h (base (entries sm)))"
  by (simp add: Entries_def elems_def)

lemma compress_cases:
  assumes "compress h sm k eps = Inr r"
  obtains (noop) "sint (word_of_nat (length (Entries h sm)) :: int64) \<le> sint (maxInt64 k 2)"
      "r = (h, sm)"
  | (run) es1 wi li ri acc es2 wi2 where
      "\<not> sint (word_of_nat (length (Entries h sm)) :: int64) \<le> sint (maxInt64 k 2)"
      "compress_outer (maxInt64 k 2) (word_of_nat (length (Entries h sm)))
         (fmul (TotalWeight h sm) (maxFloat64 (fdiv (Fin 1) (float64 (maxInt64 k 2))) eps))
         (Entries h sm, 1, 1, 0, 0) = Inr (es1, wi, li, ri, acc)"
      "(if li + 1 \<noteq> length es1
        then (if wi < length es1 then Inr (es1[wi := es1 ! (length es1 - 1)], wi + 1)
              else Inl IndexOutOfRange)
        else Inr (es1, wi)) = Inr (es2, wi2)"
      "wi2 \<le> length (arrays h (base (entries sm)))"
      "r = (set_elems h (entries sm) es2, sm\<lparr>entries := (entries sm)\<lparr>len := wi2\<rparr>\<rparr>)"
proof (cases "sint (word_of_nat (length (Entries h sm)) :: int64) \<le> sint (maxInt64 k 2)")
  case True
  with assms have "r = (h, sm)"
    by (simp add: compress_def Let_def)
  with True show ?thesis
    by (rule noop)
next
  case False
  let ?out = "compress_outer (maxInt64 k 2) (word_of_nat (length (Entries h sm)))
         (fmul (TotalWeight h sm) (maxFloat64 (fdiv (Fin 1) (float64 (maxInt64 k 2))) eps))
         (Entries h sm, 1, 1, 0, 0)"
  from assms False obtain s1 where o: "?out = Inr s1"
    by (cases ?out) (simp_all add: compress_def Let_def)
  obtain es1 wi li ri acc where s1: "s1 = (es1, wi, li, ri, acc)"
    by (cases s1)
  let ?fin = "(if li + 1 \<noteq> length es1
        then (if wi < length es1 then Inr (es1[wi := es1 ! (length es1 - 1)], wi + 1)
              else Inl IndexOutOfRange)
        else Inr (es1, wi)) :: error + SumEntry list \<times> nat"
  from assms False o s1 obtain p where f: "?fin = Inr p"
    by (cases ?fin) (simp_all add: compress_def Let_def)
  obtain es2 wi2 where p: "p = (es2, wi2)"
    by (cases p)
  from assms False o s1 f p
  have "wi2 \<le> length (arrays h (base (entries sm)))"
    "r = (set_elems h (entries sm) es2, sm\<lparr>entries := (entries sm)\<lparr>len := wi2\<rparr>\<rparr>)"
    by (simp_all add: compress_def Let_def split: if_splits)
  with False o [unfolded s1] f [unfolded p] show ?thesis
    by (rule run)
qed

text \<open>
  C1, amended. When \<open>compress(k, e)\<close> returns, the summary has at most as many entries as
  before the call, and a summary whose entry count is at most \<open>max(k, 2)\<close> is returned as it
  is, in the same store. The count after the call is not bounded by \<open>max(k, 2)\<close>.
\<close>

theorem compress_size:
  assumes "compress h sm k eps = Inr r"
  shows "length (entries_after r) \<le> length (Entries h sm) \<and>
    (sint (word_of_nat (length (Entries h sm)) :: int64) \<le> sint (maxInt64 k 2) \<longrightarrow> r = (h, sm))"
  using assms
proof (cases rule: compress_cases)
  case noop
  then show ?thesis
    by (simp add: entries_after_def)
next
  case (run es1 wi li ri acc es2 wi2)
  from compress_outer_size [OF run(2)] run(1) compress_proceeds_length [OF run(1)]
  have l: "length es1 = length (Entries h sm)" "wi \<le> length es1"
    by simp_all
  from run(3) l have "length es2 = length es1 \<and> wi2 \<le> length es1"
    by (auto split: if_splits)
  with l have "length (entries_after r) \<le> length (Entries h sm)"
    unfolding run(5) by (simp add: entries_after_def Entries_def elems_def set_elems_def)
  with run(1) show ?thesis
    by simp
qed

theorem compress_size_witness:
  "\<not> isl (compress (fst (built [sample 1 1, sample 2 1, sample 3 1]))
                   (snd (built [sample 1 1, sample 2 1, sample 3 1])) 2 (Fin 0)) \<and>
   length (entries_after (projr (compress (fst (built [sample 1 1, sample 2 1, sample 3 1]))
                   (snd (built [sample 1 1, sample 2 1, sample 3 1])) 2 (Fin 0))))
     \<le> length (Entries (fst (built [sample 1 1, sample 2 1, sample 3 1]))
                        (snd (built [sample 1 1, sample 2 1, sample 3 1]))) \<and>
   sint (word_of_nat (length (Entries (fst (built [sample 1 1])) (snd (built [sample 1 1])))) :: int64)
     \<le> sint (maxInt64 5 2) \<and>
   compress (fst (built [sample 1 1])) (snd (built [sample 1 1])) 5 (Fin 0)
     = Inr (fst (built [sample 1 1]), snd (built [sample 1 1]))"
proof -
  let ?h = "fst (built [sample 1 1, sample 2 1, sample 3 1])"
  let ?s = "snd (built [sample 1 1, sample 2 1, sample 3 1])"
  have i: "\<not> isl (compress ?h ?s 2 (Fin 0))"
    by (simp add: eval_defs compress_eval_defs)
  then have r: "compress ?h ?s 2 (Fin 0) = Inr (projr (compress ?h ?s 2 (Fin 0)))"
    by simp
  let ?h1 = "fst (built [sample 1 1])"
  let ?s1 = "snd (built [sample 1 1])"
  have n: "sint (word_of_nat (length (Entries ?h1 ?s1)) :: int64) \<le> sint (maxInt64 5 2)"
    by (simp add: eval_defs maxInt64_def)
  then have c: "compress ?h1 ?s1 5 (Fin 0) = Inr (?h1, ?s1)"
    by (simp add: compress_def Let_def)
  from compress_size [OF r] compress_size [OF c] n
  have "length (entries_after (projr (compress ?h ?s 2 (Fin 0)))) \<le> length (Entries ?h ?s)"
    by blast
  with i n c show ?thesis
    by (simp only: simp_thms)
qed

text \<open>
  C1 as stated fails on the summary built from the four samples (1, 1), (2, 1), (3, 1), (4, 1):
  \<open>compress(2, 0)\<close> admits two entries in the first bucket and one in the second, and leaves
  the three entries with values 1, 3, 4, more than \<open>max(2, 2) = 2\<close>.
\<close>

theorem compress_exceeds_sizeHint:
  "map_sum id (length \<circ> entries_after)
     (compress (fst (built [sample 1 1, sample 2 1, sample 3 1, sample 4 1]))
               (snd (built [sample 1 1, sample 2 1, sample 3 1, sample 4 1])) 2 (Fin 0)) = Inr 3 \<and>
   \<not> (3::int) \<le> sint (maxInt64 2 2)"
  by (simp add: eval_defs compress_eval_defs)

text \<open>
  C9, amended. On every summary whose entries are all equal to themselves under \<^verbatim>\<open>==\<close> (no
  field is NaN) \<open>compress\<close> returns, for all arguments, without an index out of range. In
  every state of the outer loop with such entries, \<open>wi \<le> ri + 1\<close> and \<open>ri + 1\<close> inside the
  slice, one iteration returns a state with a strictly larger \<open>ri\<close> that is still inside the
  slice: when the inner loop admits nothing, the entry at \<open>ni - 1\<close> is the entry at \<open>ri\<close> and
  the tie branch adds one.
\<close>

theorem compress_no_panic:
  assumes selfeq: "\<forall>e\<in>set (Entries h sm). SumEntry_eq e e"
  shows "(\<exists>r. compress h sm k eps = Inr r) \<and>
    (\<forall>es wi li ri acc sh st eD.
       (\<forall>e\<in>set es. SumEntry_eq e e) \<and> wi \<le> ri + 1 \<and> ri + 1 < length es \<longrightarrow>
       (\<exists>ri' acc'. compress_body sh st eD (es, wi, li, ri, acc)
            = Inr (es[wi := es ! ri'], wi + 1, ri', ri', acc') \<and> ri < ri' \<and> ri' < length es))"
proof (intro conjI allI impI)
  show "\<exists>r. compress h sm k eps = Inr r"
  proof (cases "sint (word_of_nat (length (Entries h sm)) :: int64) \<le> sint (maxInt64 k 2)")
    case True
    then show ?thesis
      by (simp add: compress_def Let_def)
  next
    case False
    from compress_proceeds_length [OF False] have n: "3 \<le> length (Entries h sm)" .
    then have p: "(1::nat) \<le> 0 + 1" "0 < length (Entries h sm)"
      "(1::nat) = 0 \<or> 0 + 1 \<noteq> length (Entries h sm)"
      by auto
    from compress_outer_returns [OF selfeq p]
    obtain es' wi' ri' acc' where
      o: "compress_outer (maxInt64 k 2) (word_of_nat (length (Entries h sm)))
         (fmul (TotalWeight h sm) (maxFloat64 (fdiv (Fin 1) (float64 (maxInt64 k 2))) eps))
         (Entries h sm, 1, 1, 0, 0) = Inr (es', wi', ri', ri', acc')"
      and l: "length es' = length (Entries h sm)" "wi' \<le> length es'" "ri' + 1 = length es'"
      by blast
    from l length_Entries_le [of h sm] have "wi' \<le> length (arrays h (base (entries sm)))"
      by simp
    with False o l show ?thesis
      by (simp add: compress_def Let_def)
  qed
next
  fix es wi li ri acc sh st eD
  assume "(\<forall>e\<in>set es. SumEntry_eq e e) \<and> wi \<le> ri + 1 \<and> ri + 1 < length es"
  then show "\<exists>ri' acc'. compress_body sh st eD (es, wi, li, ri, acc)
            = Inr (es[wi := es ! ri'], wi + 1, ri', ri', acc') \<and> ri < ri' \<and> ri' < length es"
    using compress_body_progress by blast
qed

text \<open>
  C9 as stated fails on the summary built from the samples (1, NaN), (2, 1), (3, 1): the first
  entry has the weight NaN and is not equal to itself, the total weight and so \<open>epsDelta\<close> are
  NaN and no entry is admitted, so \<open>ri\<close> stays 0 while \<open>wi\<close> grows, and the third write is
  to index 3 of a slice of length 3.
\<close>

theorem compress_panics_on_NaN:
  "compress (fst (built [\<lparr>buf_value = Fin 1, buf_weight = NaN\<rparr>, sample 2 1, sample 3 1]))
            (snd (built [\<lparr>buf_value = Fin 1, buf_weight = NaN\<rparr>, sample 2 1, sample 3 1])) 2 (Fin 0)
     = Inl IndexOutOfRange"
  by (simp add: eval_defs compress_eval_defs)


theorem compress_no_panic_witness:
  "SumEntry_eq \<lparr>value = Fin 1, weight = Fin 1, minRank = Fin 0, maxRank = Fin 1\<rparr>
               \<lparr>value = Fin 1, weight = Fin 1, minRank = Fin 0, maxRank = Fin 1\<rparr> \<and>
   Entries (fst (built [sample 1 1, sample 1 1, sample 1 1])) (snd (built [sample 1 1, sample 1 1, sample 1 1]))
     = [\<lparr>value = Fin 1, weight = Fin 1, minRank = Fin 0, maxRank = Fin 1\<rparr>,
        \<lparr>value = Fin 1, weight = Fin 1, minRank = Fin 1, maxRank = Fin 2\<rparr>,
        \<lparr>value = Fin 1, weight = Fin 1, minRank = Fin 2, maxRank = Fin 3\<rparr>] \<and>
   \<not> isl (compress (fst (built [sample 1 1, sample 1 1, sample 1 1]))
                   (snd (built [sample 1 1, sample 1 1, sample 1 1])) 2 (Fin 0)) \<and>
   \<not> isl (compress_body 2 3 (Fin 0)
      ([\<lparr>value = Fin 1, weight = Fin 1, minRank = Fin 0, maxRank = Fin 1\<rparr>,
        \<lparr>value = Fin 1, weight = Fin 1, minRank = Fin 1, maxRank = Fin 2\<rparr>,
        \<lparr>value = Fin 1, weight = Fin 1, minRank = Fin 2, maxRank = Fin 3\<rparr>], 1, 1, 0, 0))"
proof -
  let ?h = "fst (built [sample 1 1, sample 1 1, sample 1 1])"
  let ?s = "snd (built [sample 1 1, sample 1 1, sample 1 1])"
  let ?es = "[\<lparr>value = Fin 1, weight = Fin 1, minRank = Fin 0, maxRank = Fin 1\<rparr>,
        \<lparr>value = Fin 1, weight = Fin 1, minRank = Fin 1, maxRank = Fin 2\<rparr>,
        \<lparr>value = Fin 1, weight = Fin 1, minRank = Fin 2, maxRank = Fin 3\<rparr>]"
  have es: "Entries ?h ?s = ?es"
    by (simp add: eval_defs)
  have self: "\<forall>e\<in>set ?es. SumEntry_eq e e"
    by (simp add: SumEntry_eq_def)
  then have self': "\<forall>e\<in>set (Entries ?h ?s). SumEntry_eq e e"
    by (simp only: es)
  have pre: "(\<forall>e\<in>set ?es. SumEntry_eq e e) \<and> (1::nat) \<le> 0 + 1 \<and> 0 + 1 < length ?es"
    using self by simp
  note t = compress_no_panic [OF self', of 2 "Fin 0"]
  from t [THEN conjunct1] have a: "\<not> isl (compress ?h ?s 2 (Fin 0))"
    by (auto simp only: sum.disc)
  from t [THEN conjunct2, rule_format, OF pre, of 2 3 "Fin 0" 1 0]
  have b: "\<not> isl (compress_body 2 3 (Fin 0) (?es, 1, 1, 0, 0))"
    by (auto simp only: sum.disc)
  have "SumEntry_eq \<lparr>value = Fin 1, weight = Fin 1, minRank = Fin 0, maxRank = Fin 1\<rparr>
               \<lparr>value = Fin 1, weight = Fin 1, minRank = Fin 0, maxRank = Fin 1\<rparr>"
    by (simp add: SumEntry_eq_def)
  with es a b show ?thesis
    by (simp only: simp_thms)
qed

subsection \<open>Queries on an empty summary\<close>

text \<open>
  C8. On a summary with no entries, \<open>GenerateQuantiles\<close> and \<open>GenerateBoundaries\<close> return the
  empty sequence for every argument (and \<open>GenerateBoundaries\<close> leaves the store as it is), and
  \<open>ApproximationError\<close>, \<open>MinValue\<close>, \<open>MaxValue\<close> and \<open>TotalWeight\<close> return 0. None of them
  panics or runs for ever: the results are \<open>Inr\<close> values, \<open>Some\<close> of one for
  \<open>GenerateQuantiles\<close>, whose loop is the only one that need not end.
\<close>

theorem empty_summary_queries:
  assumes "Entries h sm = []"
  shows "GenerateQuantiles h sm n = Some (Inr []) \<and> GenerateBoundaries h sm n = Inr ([], h) \<and>
         ApproximationError h sm = Fin 0 \<and> MinValue h sm = Fin 0 \<and>
         MaxValue h sm = Fin 0 \<and> TotalWeight h sm = Fin 0"
  using assms
  by (simp add: GenerateQuantiles_def GenerateBoundaries_def ApproximationError_def
      MinValue_def MaxValue_def TotalWeight_def)

theorem empty_summary_queries_witness:
  "Entries store0 emptySummary = [] \<and>
   GenerateQuantiles store0 emptySummary 4 = Some (Inr []) \<and>
   GenerateBoundaries store0 emptySummary 4 = Inr ([], store0) \<and>
   ApproximationError store0 emptySummary = Fin 0 \<and> MinValue store0 emptySummary = Fin 0 \<and>
   MaxValue store0 emptySummary = Fin 0 \<and> TotalWeight store0 emptySummary = Fin 0"
proof -
  have e: "Entries store0 emptySummary = []"
    by (simp add: Entries_def elems_def emptySummary_def nil_slice_def)
  show ?thesis
    using e empty_summary_queries [OF e, of 4] by simp
qed

subsection \<open>GenerateBoundaries\<close>

text \<open>
  C3. \<open>GenerateBoundaries\<close> is to return exactly the values of the compressed entries. On the
  summary built from the single sample (1, 1), \<open>GenerateBoundaries(1)\<close> compresses to the one
  entry with value 1 and returns the two values 0, 1: the buffer made with length 1 is extended
  by \<^verbatim>\<open>append\<close>, so the result starts with one zero for each compressed entry.
\<close>

theorem GenerateBoundaries_pads_with_zeros:
  "map_sum id fst (GenerateBoundaries (fst (built [sample 1 1])) (snd (built [sample 1 1])) 1)
     = Inr [Fin 0, Fin 1]"
  by (simp add: eval_defs GenerateBoundaries_def compress_def maxInt64_def)

text \<open>
  C2. \<open>GenerateBoundaries\<close> is to leave the entries of its receiver as they are. The summary
  built from the samples (1, 1), (2, 1), (3, 1) has the values 1, 2, 3; after
  \<open>GenerateBoundaries(2)\<close> the same summary has the values 1, 3, 3. The compressed summary was
  given the receiver's slice by \<open>buildFromSummaryEntries\<close>, so \<open>compress\<close> wrote into the array
  that the receiver still uses.
\<close>

theorem GenerateBoundaries_overwrites_receiver:
  "values_in (snd (built [sample 1 1, sample 2 1, sample 3 1]))
             (fst (built [sample 1 1, sample 2 1, sample 3 1])) = [Fin 1, Fin 2, Fin 3] \<and>
   map_sum id (values_in (snd (built [sample 1 1, sample 2 1, sample 3 1])) \<circ> snd)
     (GenerateBoundaries (fst (built [sample 1 1, sample 2 1, sample 3 1]))
                         (snd (built [sample 1 1, sample 2 1, sample 3 1])) 2)
     = Inr [Fin 1, Fin 3, Fin 3]"
  by (simp add: eval_defs values_in_def GenerateBoundaries_def compress_eval_defs
      ApproximationError_def ApproximationError_loop.simps)

end
